theory Spec2Isabelle
  imports
    Main
    "HOL-Library.Word"
    "HOL-Library.Char_ord"
    "HOL-Library.List_Lexorder"
    "HOL-Library.Multiset"
begin

unbundle bit_operations_syntax

section \<open>Errors\<close>

text \<open>
  Go reports failure through a returned \<open>error\<close> value or through a panic. Both are
  values here: a function that can fail returns \<open>error + 'a\<close>, the error on the left.
\<close>

datatype error =
    ErrNotExist                    \<comment> \<open>\<open>fs.ErrNotExist\<close>\<close>
  | TooManySymlinks string         \<comment> \<open>"opening %s: chased too many (%d) symlinks"\<close>
  | EOF                            \<comment> \<open>\<open>io.EOF\<close>\<close>
  | ErrUnexpectedEOF               \<comment> \<open>\<open>io.ErrUnexpectedEOF\<close>\<close>
  | NoCheckpoint int               \<comment> \<open>"could not find any checkpoints or readers for offset %d"\<close>
  | ContinueError error            \<comment> \<open>"continue: %w"\<close>
  | CorruptInputError int          \<comment> \<open>\<open>flate.CorruptInputError\<close>, with the compressed offset\<close>
  | InternalError string           \<comment> \<open>\<open>flate.InternalError\<close>\<close>
  | Panic string                   \<comment> \<open>a run-time panic with its message\<close>

section \<open>Package tarfs\<close>

subsection \<open>Strings and paths of the Go standard library\<close>

text \<open>
  A Go string is a byte sequence, a \<open>string\<close> here; \<open>cmp.Compare\<close> on strings is the
  lexicographic order on bytes, which is the order of \<open>char list\<close>.
\<close>

definition strings_TrimPrefix :: "string \<Rightarrow> string \<Rightarrow> string" where
  "strings_TrimPrefix s p = (if take (length p) s = p then drop (length p) s else s)"

definition strings_TrimSuffix :: "string \<Rightarrow> string \<Rightarrow> string" where
  "strings_TrimSuffix s p =
     (if length p \<le> length s \<and> drop (length s - length p) s = p
      then take (length s - length p) s else s)"

text \<open>The elements of a path between its slashes, the empty ones included.\<close>

fun split_slash :: "string \<Rightarrow> string list" where
  "split_slash [] = [[]]"
| "split_slash (c # cs) =
     (if c = CHR ''/'' then [] # split_slash cs
      else (case split_slash cs of [] \<Rightarrow> [[c]] | x # xs \<Rightarrow> (c # x) # xs))"

fun join_slash :: "string list \<Rightarrow> string" where
  "join_slash [] = []"
| "join_slash [x] = x"
| "join_slash (x # y # ys) = x @ CHR ''/'' # join_slash (y # ys)"

text \<open>
  \<open>path.Clean\<close>, element by element: \<open>out\<close> is the stack of the elements kept so far,
  the last one first. An empty element and \<open>.\<close> are dropped; \<open>..\<close> removes the element
  before it, is dropped at the root of a rooted path, and is kept at the start of a
  relative one.
\<close>

fun clean_elems :: "bool \<Rightarrow> string list \<Rightarrow> string list \<Rightarrow> string list" where
  "clean_elems rooted out [] = rev out"
| "clean_elems rooted out (e # es) =
     (if e = [] \<or> e = ''.'' then clean_elems rooted out es
      else if e = ''..'' then
        (case out of
           [] \<Rightarrow> if rooted then clean_elems rooted [] es else clean_elems rooted [e] es
         | x # xs \<Rightarrow> if x = ''..'' then clean_elems rooted (e # out) es
                     else clean_elems rooted xs es)
      else clean_elems rooted (e # out) es)"

definition path_Clean :: "string \<Rightarrow> string" where
  "path_Clean p =
     (if p = [] then ''.''
      else let rooted = (hd p = CHR ''/'');
               s = (if rooted then ''/'' else []) @ join_slash (clean_elems rooted [] (split_slash p))
           in if s = [] then ''.'' else s)"

text \<open>\<open>path.Join\<close>: the elements are joined with slashes, leading empty ones skipped.\<close>

fun join_buf :: "string \<Rightarrow> string list \<Rightarrow> string" where
  "join_buf buf [] = buf"
| "join_buf buf (e # es) =
     (if buf \<noteq> [] \<or> e \<noteq> []
      then join_buf ((if buf \<noteq> [] then buf @ ''/'' else buf) @ e) es
      else join_buf buf es)"

definition path_Join :: "string list \<Rightarrow> string" where
  "path_Join elem = (if concat elem = [] then [] else path_Clean (join_buf [] elem))"

text \<open>\<open>path.Split\<close> cuts after the last slash; \<open>path.Dir\<close> cleans the first half.\<close>

definition path_Split :: "string \<Rightarrow> string \<times> string" where
  "path_Split p =
     (rev (dropWhile (\<lambda>c. c \<noteq> CHR ''/'') (rev p)), rev (takeWhile (\<lambda>c. c \<noteq> CHR ''/'') (rev p)))"

definition path_Dir :: "string \<Rightarrow> string" where
  "path_Dir p = path_Clean (fst (path_Split p))"

definition path_Base :: "string \<Rightarrow> string" where
  "path_Base p =
     (if p = [] then ''.''
      else let p1 = rev (dropWhile (\<lambda>c. c = CHR ''/'') (rev p));
               p2 = snd (path_Split p1)
           in if p2 = [] then ''/'' else p2)"

definition path_IsAbs :: "string \<Rightarrow> bool" where
  "path_IsAbs p = (p \<noteq> [] \<and> hd p = CHR ''/'')"

subsection \<open>Headers, entries, files\<close>

text \<open>
  The fields of \<open>tar.Header\<close> the package reads. \<open>Typeflag\<close> is a byte; \<open>Mode\<close> holds the
  permission and file-type bits.
\<close>

record Header =
  Name :: string
  Linkname :: string
  Typeflag :: char
  Size :: int
  Mode :: int

definition TypeReg :: char where "TypeReg = CHR ''0''"
definition TypeLink :: char where "TypeLink = CHR ''1''"
definition TypeSymlink :: char where "TypeSymlink = CHR ''2''"
definition TypeDir :: char where "TypeDir = CHR ''5''"

text \<open>
  \<open>fs.FileInfo\<close>, as far as the package looks at it: the name and whether it is a
  directory. \<open>Header_FileInfo\<close> is \<open>tar.Header.FileInfo\<close>: a header is a directory by its
  type flag or by the file-type bits of its mode (the mode as a \<open>uint32\<close> with the low
  twelve bits cleared equals \<open>c_ISDIR\<close>, octal 040000), and the name of a directory is
  cleaned before its base is taken.
\<close>

record FileInfo =
  fiName :: string
  fiIsDir :: bool

definition Header_IsDir :: "Header \<Rightarrow> bool" where
  "Header_IsDir h = (Typeflag h = TypeDir \<or> ((Mode h mod 2 ^ 32) div 4096) * 4096 = 16384)"

definition Header_FileInfo :: "Header \<Rightarrow> FileInfo" where
  "Header_FileInfo h =
     \<lparr> fiName = (if Header_IsDir h then path_Base (path_Clean (Name h)) else path_Base (Name h)),
       fiIsDir = Header_IsDir h \<rparr>"

definition root :: FileInfo where
  "root = \<lparr> fiName = ''.'', fiIsDir = True \<rparr>"

record Entry =
  Header :: Header
  Offset :: int
  Filename :: string
  dir :: string
  fi :: FileInfo

definition Entry_Name :: "Entry \<Rightarrow> string" where
  "Entry_Name e = fiName (fi e)"

text \<open>
  An open file: its entry, the section of the archive it reads (\<open>io.NewSectionReader\<close>
  with offset and length) and the cursor of \<open>ReadDir\<close>. The file system it points to is
  passed to the functions that need it.
\<close>

record File =
  Entry :: Entry
  sr_off :: int
  sr_n :: int
  cursor :: int

text \<open>
  \<open>FS\<close>: the entries in archive order, the index from a name to a position in
  \<open>files\<close>, and the listing of every directory. A Go map is a partial function.
\<close>

record FS =
  files :: "Entry list"
  index :: "string \<rightharpoonup> nat"
  dirs :: "string \<rightharpoonup> Entry list"

definition normalize :: "string \<Rightarrow> string" where
  "normalize s =
     strings_TrimPrefix (strings_TrimPrefix (strings_TrimSuffix s ''/'') ''/'') ''./''"

text \<open>\<open>FS.Entry\<close>. Indexing \<open>files\<close> out of range panics in Go.\<close>

definition FS_Entry :: "FS \<Rightarrow> string \<Rightarrow> error + Entry" where
  "FS_Entry fsys name =
     (case index fsys name of
        None \<Rightarrow> Inl ErrNotExist
      | Some i \<Rightarrow> if i < length (files fsys) then Inr (files fsys ! i)
                  else Inl (Panic ''index out of range''))"

text \<open>
  \<open>dirs(name)\<close> yields \<open>name[0:i]\<close> for every \<open>i\<close> with a slash at \<open>name[i]\<close>, the shortest
  first. (\<open>dirs_seq pre rest\<close>: \<open>pre\<close> is the part of the name already passed.)
\<close>

fun dirs_seq :: "string \<Rightarrow> string \<Rightarrow> string list" where
  "dirs_seq pre [] = []"
| "dirs_seq pre (v # rest) =
     (if v = CHR ''/'' then pre # dirs_seq (pre @ [v]) rest else dirs_seq (pre @ [v]) rest)"

definition dirs_iter :: "string \<Rightarrow> string list" where
  "dirs_iter name = dirs_seq [] name"

definition maxHops :: int where
  "maxHops = 255"

text \<open>
  The loop of \<open>open\<close> over \<open>dirs(name)\<close>: the first prefix that is an entry and a symlink
  decides the name that \<open>open\<close> goes on with; the loop ends without one otherwise.
\<close>

fun symlinked_dir :: "FS \<Rightarrow> string \<Rightarrow> string list \<Rightarrow> string option" where
  "symlinked_dir fsys name [] = None"
| "symlinked_dir fsys name (d # ds) =
     (case FS_Entry fsys d of
        Inl err \<Rightarrow> symlinked_dir fsys name ds
      | Inr e \<Rightarrow>
          if Typeflag (Header e) \<noteq> TypeSymlink then symlinked_dir fsys name ds
          else let rest = strings_TrimPrefix name d; link = Linkname (Header e)
               in if path_IsAbs link then Some (normalize (path_Join [link, rest]))
                  else Some (path_Join [dir e, link, rest]))"

function FS_open :: "FS \<Rightarrow> string \<Rightarrow> int \<Rightarrow> error + File" where
  "FS_open fsys name hops =
     (if hops > maxHops then Inl (TooManySymlinks name)
      else case FS_Entry fsys name of
        Inl err \<Rightarrow>
          (if err = ErrNotExist then
             (case symlinked_dir fsys name (dirs_iter name) of
                Some name' \<Rightarrow> FS_open fsys name' (hops + 1)
              | None \<Rightarrow> Inl err)
           else Inl err)
      | Inr e \<Rightarrow>
          if Typeflag (Header e) = TypeSymlink \<or> Typeflag (Header e) = TypeLink then
            (let link = Linkname (Header e)
             in if path_IsAbs link \<or> Typeflag (Header e) = TypeLink
                then FS_open fsys (normalize link) (hops + 1)
                else FS_open fsys (path_Join [dir e, link]) (hops + 1))
          else Inr \<lparr> Entry = e, sr_off = Offset e, sr_n = Size (Header e), cursor = 0 \<rparr>)"
  by pat_completeness auto
termination
  by (relation "measure (\<lambda>(fsys, name, hops). nat (maxHops + 1 - hops))")
     (auto simp: maxHops_def)

declare FS_open.simps [simp del]

definition FS_Open :: "FS \<Rightarrow> string \<Rightarrow> error + File" where
  "FS_Open fsys name =
     (if name = ''.'' then
        Inr \<lparr> Entry = \<lparr> Header = \<lparr> Name = ''.'', Linkname = [], Typeflag = CHR 0x00, Size = 0, Mode = 0 \<rparr>,
                       Offset = 0, Filename = ''.'', dir = ''.'', fi = root \<rparr>,
              sr_off = 0, sr_n = 0, cursor = 0 \<rparr>
      else FS_open fsys name 0)"

definition FS_ReadDir :: "FS \<Rightarrow> string \<Rightarrow> error + Entry list" where
  "FS_ReadDir fsys name = (case dirs fsys name of None \<Rightarrow> Inr [] | Some ds \<Rightarrow> Inr ds)"

subsection \<open>Building the file system\<close>

text \<open>
  \<open>New\<close> reads the archive through \<open>tar.Reader\<close>. The input here is what the reader
  yields: every header with the count \<open>cr.n\<close> of bytes consumed when it was returned,
  and the error that ended the scan (\<open>io.EOF\<close> at the end of a well-formed archive).
\<close>

fun New_scan :: "FS \<Rightarrow> (string \<rightharpoonup> int) \<Rightarrow> (Header \<times> int) list \<Rightarrow> FS \<times> (string \<rightharpoonup> int)" where
  "New_scan fsys dirCount [] = (fsys, dirCount)"
| "New_scan fsys dirCount ((hdr, n) # rest) =
     (let normalized = normalize (Name hdr);
          d = path_Dir normalized;
          fsys' = fsys \<lparr> index := (index fsys)(normalized \<mapsto> length (files fsys)),
                         files := files fsys @
                           [\<lparr> Header = hdr, Offset = n, Filename = normalized, dir = d,
                              fi = Header_FileInfo hdr \<rparr>] \<rparr>
      in New_scan fsys' (dirCount(d \<mapsto> (case dirCount d of None \<Rightarrow> 0 | Some c \<Rightarrow> c) + 1)) rest)"

text \<open>The second loop gives every counted directory an empty listing.\<close>

definition New_alloc :: "(string \<rightharpoonup> int) \<Rightarrow> (string \<rightharpoonup> Entry list) \<Rightarrow> (string \<rightharpoonup> Entry list)" where
  "New_alloc dirCount ds = (\<lambda>d. if dirCount d \<noteq> None then Some [] else ds d)"

text \<open>The third loop appends every entry to the listing of its directory (a missing
  key reads as the nil slice).\<close>

fun New_fill :: "(string \<rightharpoonup> Entry list) \<Rightarrow> Entry list \<Rightarrow> (string \<rightharpoonup> Entry list)" where
  "New_fill ds [] = ds"
| "New_fill ds (f # fs) =
     New_fill (ds(dir f \<mapsto> (case ds (dir f) of None \<Rightarrow> [] | Some l \<Rightarrow> l) @ [f])) fs"

text \<open>
  The last loop sorts every listing with \<open>slices.SortFunc\<close> on \<open>cmp.Compare(a.Name(),
  b.Name())\<close>. \<open>SortFunc\<close> promises an ascending result and no stability; insertion
  sort stands for it, and the theorems below use only that the result is sorted and
  has the elements of the input.
\<close>

definition slices_SortFunc_Name :: "Entry list \<Rightarrow> Entry list" where
  "slices_SortFunc_Name es = sort_key Entry_Name es"

definition New :: "(Header \<times> int) list \<Rightarrow> error \<Rightarrow> error + FS" where
  "New hdrs err =
     (if err \<noteq> EOF then Inl err
      else let (fsys, dirCount) = New_scan \<lparr> files = [], index = Map.empty, dirs = Map.empty \<rparr> Map.empty hdrs;
               ds = New_fill (New_alloc dirCount (dirs fsys)) (files fsys)
           in Inr (fsys \<lparr> dirs := (\<lambda>d. map_option slices_SortFunc_Name (ds d)) \<rparr>))"

subsection \<open>Reading a directory through a file\<close>

text \<open>
  \<open>File.ReadDir\<close> returns the entries, the error, and the file with its cursor moved.
  A nil slice and an empty slice are both the empty list.
\<close>

definition File_ReadDir :: "FS \<Rightarrow> File \<Rightarrow> int \<Rightarrow> (Entry list \<times> error option) \<times> File" where
  "File_ReadDir fsys f n =
     (if n = 0 then (([], None), f)
      else case FS_ReadDir fsys (Filename (Entry f)) of
        Inl err \<Rightarrow> (([], Some err), f)
      | Inr d \<Rightarrow>
          if cursor f \<ge> int (length d) then
            (if n < 0 then (([], None), f) else (([], Some EOF), f))
          else if cursor f < 0 then (([], Some (Panic ''slice bounds out of range'')), f)
          else if n > 0 \<and> int (length d) - cursor f > n then
            ((take (nat n) (drop (nat (cursor f)) d), None), f \<lparr> cursor := cursor f + n \<rparr>)
          else ((drop (nat (cursor f)) d, None), f \<lparr> cursor := int (length d) \<rparr>))"

text \<open>Successive calls on one handle, for the arguments \<open>ns\<close> in turn: the slices
  returned, in order, and the handle afterwards.\<close>

fun ReadDir_calls :: "FS \<Rightarrow> File \<Rightarrow> int list \<Rightarrow> Entry list list \<times> File" where
  "ReadDir_calls fsys f [] = ([], f)"
| "ReadDir_calls fsys f (n # ns) =
     (let ((es, err), f') = File_ReadDir fsys f n;
          (ess, f'') = ReadDir_calls fsys f' ns
      in (es # ess, f''))"

subsection \<open>Notions used to state the properties\<close>

text \<open>The entry \<open>New\<close> records for one member of the archive.\<close>

definition member_entry :: "Header \<times> int \<Rightarrow> Entry" where
  "member_entry m =
     \<lparr> Header = fst m, Offset = snd m, Filename = normalize (Name (fst m)),
       dir = path_Dir (normalize (Name (fst m))), fi = Header_FileInfo (fst m) \<rparr>"

text \<open>
  One indirection of \<open>open\<close>: the name \<open>open\<close> calls itself with at \<open>name\<close>, if it
  does (through a link entry, or through a symlinked directory above a missing name).
  \<open>chase fsys k name\<close> is the name reached after \<open>k\<close> indirections, if the chain is that
  long, and \<open>opened\<close> is what \<open>open\<close> returns at a name without indirection.
\<close>

definition follow :: "FS \<Rightarrow> string \<Rightarrow> string option" where
  "follow fsys name =
     (case FS_Entry fsys name of
        Inl err \<Rightarrow> if err = ErrNotExist then symlinked_dir fsys name (dirs_iter name) else None
      | Inr e \<Rightarrow>
          if Typeflag (Header e) = TypeSymlink \<or> Typeflag (Header e) = TypeLink then
            (if path_IsAbs (Linkname (Header e)) \<or> Typeflag (Header e) = TypeLink
             then Some (normalize (Linkname (Header e)))
             else Some (path_Join [dir e, Linkname (Header e)]))
          else None)"

fun chase :: "FS \<Rightarrow> nat \<Rightarrow> string \<Rightarrow> string option" where
  "chase fsys 0 name = Some name"
| "chase fsys (Suc k) name =
     (case follow fsys name of None \<Rightarrow> None | Some name' \<Rightarrow> chase fsys k name')"

definition opened :: "FS \<Rightarrow> string \<Rightarrow> error + File" where
  "opened fsys name =
     (case FS_Entry fsys name of
        Inl err \<Rightarrow> Inl err
      | Inr e \<Rightarrow> Inr \<lparr> Entry = e, sr_off = Offset e, sr_n = Size (Header e), cursor = 0 \<rparr>)"

subsection \<open>Example archives\<close>

definition member :: "string \<Rightarrow> char \<Rightarrow> string \<Rightarrow> int \<Rightarrow> Header \<times> int" where
  "member name typ link off =
     (\<lparr> Name = name, Linkname = link, Typeflag = typ, Size = 24, Mode = 0 \<rparr>, off)"

text \<open>The archive of \<open>TestSymlinkedDirs\<close>, and a link that names itself.\<close>

definition symlink_archive :: "(Header \<times> int) list" where
  "symlink_archive =
     [member ''usr'' TypeDir [] 512,
      member ''usr/bin'' TypeDir [] 1024,
      member ''usr/bin/binary'' TypeReg [] 1536,
      member ''weird'' TypeDir [] 2560,
      member ''weird/linked'' TypeSymlink ''/usr/bin'' 3072,
      member ''weird/absolute'' TypeDir [] 3584,
      member ''weird/absolute/binary'' TypeSymlink ''/weird/linked/binary'' 4096,
      member ''weird/relative'' TypeDir [] 4608,
      member ''weird/relative/binary'' TypeSymlink ''../linked/binary'' 5120]"

definition loop_fs :: FS where
  "loop_fs =
     \<lparr> files = [member_entry (member ''loop'' TypeSymlink ''loop'' 512),
                member_entry (member ''file'' TypeReg [] 1024)],
       index = [''loop'' \<mapsto> 0, ''file'' \<mapsto> 1],
       dirs = [''.'' \<mapsto> [member_entry (member ''file'' TypeReg [] 1024),
                          member_entry (member ''loop'' TypeSymlink ''loop'' 512)]] \<rparr>"

text \<open>An archive with two members of one name.\<close>

definition collision_archive :: "(Header \<times> int) list" where
  "collision_archive = [member ''a'' TypeReg [] 512, member ''a'' TypeReg [] 1536]"


section \<open>Package gsip\<close>

subsection \<open>Checkpoints and the gzip reader\<close>

type_synonym byte = "8 word"

text \<open>
  \<open>flate.Checkpoint\<close>: the compressed and uncompressed offsets, the bit buffer, and the
  window with its cursor. (The optional gzip header is left out: nothing under
  \<open>src/\<close> reads or writes it.)
\<close>

record Checkpoint =
  In :: int
  Out :: int
  B :: "32 word"
  NB :: nat
  Hist :: "byte list"
  WrPos :: nat
  RdPos :: nat
  Full :: bool
  Empty :: bool

text \<open>
  Modelled from the spec: \<open>gzip.Reader\<close> (package \<open>gsip/internal/gzip\<close> is not among
  the sources). The spec gives it the read interface of the decoder and \<open>offset()\<close>, the
  uncompressed position: \<open>read(buf)\<close> fills up to \<open>|buf|\<close> bytes with a status of Ok,
  Eos, Corrupt or UnexpectedEof, and an error is terminal: it latches and every later
  read returns it. A reader is its position, the bytes it has yet to produce, and the
  status it ends with (\<open>EOF\<close> for Eos). \<open>zRead\<close> hands out as many bytes as the buffer
  takes; what \<open>io.ReadFull\<close> and \<open>io.CopyN\<close> return does not depend on how a reader
  cuts its output into reads.
\<close>

record zReader =
  zoffset :: int
  zdata :: "byte list"
  zstatus :: error

definition gz_Offset :: "zReader \<Rightarrow> int" where
  "gz_Offset zr = zoffset zr"

definition zRead :: "zReader \<Rightarrow> nat \<Rightarrow> (byte list \<times> error option) \<times> zReader" where
  "zRead zr k =
     (if zdata zr = [] then (([], Some (zstatus zr)), zr)
      else let n = min k (length (zdata zr))
           in ((take n (zdata zr), None),
               zr \<lparr> zoffset := zoffset zr + int n, zdata := drop n (zdata zr) \<rparr>))"

lemma zRead_progress:
  "zRead zr k = ((bs, None), zr') \<Longrightarrow> 0 < k \<Longrightarrow> 0 < length bs"
  by (cases "zdata zr") (auto simp: zRead_def Let_def min_def split: if_splits)

subsection \<open>\<open>io.ReadFull\<close> and \<open>io.CopyN\<close> of the Go standard library\<close>

text \<open>
  \<open>io.ReadAtLeast\<close> reads until \<open>min\<close> bytes are there or a read fails; \<open>got\<close> is the
  part of the buffer filled so far. \<open>io.ReadFull(r, buf)\<close> is \<open>ReadAtLeast(r, buf,
  len(buf))\<close>: the error is dropped when the buffer is full, and \<open>EOF\<close> after some but
  not all bytes becomes \<open>ErrUnexpectedEOF\<close>.
\<close>

function ReadAtLeast_loop :: "zReader \<Rightarrow> nat \<Rightarrow> byte list \<Rightarrow> (byte list \<times> error option) \<times> zReader" where
  "ReadAtLeast_loop zr min_n got =
     (if length got < min_n then
        (case zRead zr (min_n - length got) of
           ((bs, None), zr') \<Rightarrow> ReadAtLeast_loop zr' min_n (got @ bs)
         | ((bs, Some e), zr') \<Rightarrow> ((got @ bs, Some e), zr'))
      else ((got, None), zr))"
  by pat_completeness auto
termination
proof (relation "measure (\<lambda>(zr, min_n, got). min_n - length got)", goal_cases)
  case 1
  then show ?case by simp
next
  case (2 zr min_n got x1 zr' bs err)
  then have "zRead zr (min_n - length got) = ((bs, None), zr')" by simp
  from zRead_progress [OF this] 2(1) show ?case by (cases bs) auto
qed

declare ReadAtLeast_loop.simps [simp del]

definition io_ReadFull :: "zReader \<Rightarrow> nat \<Rightarrow> (byte list \<times> error option) \<times> zReader" where
  "io_ReadFull zr len =
     (let ((got, err), zr') = ReadAtLeast_loop zr len []
      in if length got \<ge> len then ((got, None), zr')
         else if length got > 0 \<and> err = Some EOF then ((got, Some ErrUnexpectedEOF), zr')
         else ((got, err), zr'))"

text \<open>
  \<open>io.CopyN(io.Discard, src, n)\<close> copies from \<open>io.LimitReader(src, n)\<close>: \<open>Discard\<close> reads
  into a buffer of 8192 bytes until a read fails, the limited reader cuts every read to
  the \<open>N\<close> bytes left and answers \<open>EOF\<close> when none is left, and \<open>Discard\<close> turns \<open>EOF\<close>
  into success. \<open>CopyN\<close> then reports \<open>EOF\<close> if fewer than \<open>n\<close> bytes were copied without
  an error.
\<close>

function Discard_ReadFrom :: "zReader \<Rightarrow> int \<Rightarrow> int \<Rightarrow> (int \<times> error option) \<times> zReader" where
  "Discard_ReadFrom zr N written =
     (if N \<le> 0 then ((written, None), zr)
      else case zRead zr (nat (min 8192 N)) of
        ((bs, None), zr') \<Rightarrow>
          Discard_ReadFrom zr' (N - int (length bs)) (written + int (length bs))
      | ((bs, Some e), zr') \<Rightarrow>
          if e = EOF then ((written + int (length bs), None), zr')
          else ((written + int (length bs), Some e), zr'))"
  by pat_completeness auto
termination
proof (relation "measure (\<lambda>(zr, N, written). nat N)", goal_cases)
  case 1
  then show ?case by simp
next
  case (2 zr N written x1 zr' bs err)
  then have "zRead zr (nat (min 8192 N)) = ((bs, None), zr')" by simp
  from zRead_progress [OF this] 2(1) show ?case by simp
qed

declare Discard_ReadFrom.simps [simp del]

definition io_CopyN_Discard :: "zReader \<Rightarrow> int \<Rightarrow> (int \<times> error option) \<times> zReader" where
  "io_CopyN_Discard zr n =
     (let ((written, err), zr') = Discard_ReadFrom zr n 0
      in if written = n then ((n, None), zr')
         else if written < n \<and> err = None then ((written, Some EOF), zr')
         else ((written, err), zr'))"

subsection \<open>The reader and its pool\<close>

text \<open>
  \<open>gsip.Reader\<close>. The map \<open>readers\<close> from a \<open>*gzip.Reader\<close> to its idle flag is the list
  of its entries, in the order a \<open>range\<close> over the map visits them; the position of an
  entry stands for the pointer. A read through the pointer changes the entry. Go leaves
  the order of a \<open>range\<close> over a map open: the theorems hold for every list.
\<close>

record Reader =
  size :: int
  checkpoints :: "Checkpoint list"
  readers :: "(zReader \<times> bool) list"

text \<open>The first loop of \<open>acquireReader\<close>: an idle reader that stands at \<open>off\<close>.\<close>

fun find_exact :: "(zReader \<times> bool) list \<Rightarrow> int \<Rightarrow> nat \<Rightarrow> nat option" where
  "find_exact [] off i = None"
| "find_exact ((zr, ok) # rs) off i =
     (if ok \<and> gz_Offset zr = off then Some i else find_exact rs off (Suc i))"

text \<open>The loop over the checkpoints: the last one before the first with \<open>Out > off\<close>.\<close>

fun find_highest :: "Checkpoint option \<Rightarrow> Checkpoint list \<Rightarrow> int \<Rightarrow> Checkpoint option" where
  "find_highest highest [] off = highest"
| "find_highest highest (checkpoint # cks) off =
     (if Out checkpoint > off then highest else find_highest (Some checkpoint) cks off)"

text \<open>The loop taken without a checkpoint: an idle reader at or before \<open>off\<close>.\<close>

fun find_idle :: "(zReader \<times> bool) list \<Rightarrow> int \<Rightarrow> nat \<Rightarrow> nat option" where
  "find_idle [] off i = None"
| "find_idle ((zr, ok) # rs) off i =
     (if \<not> ok then find_idle rs off (Suc i)
      else if gz_Offset zr > off then find_idle rs off (Suc i)
      else Some i)"

text \<open>
  \<open>acquireReader\<close>. \<open>cont\<close> stands for \<open>gzip.Continue\<close> on the section of the blob that
  starts at the checkpoint's \<open>In\<close> (the function is not among the sources). The result
  is the error or the reader's position in the pool, and the reader afterwards.
\<close>

definition acquireReader ::
    "(Checkpoint \<Rightarrow> error + zReader) \<Rightarrow> Reader \<Rightarrow> int \<Rightarrow> (error + nat) \<times> Reader" where
  "acquireReader cont r off =
     (case find_exact (readers r) off 0 of
        Some i \<Rightarrow> (Inr i, r \<lparr> readers := (readers r)[i := (fst (readers r ! i), False)] \<rparr>)
      | None \<Rightarrow>
          (case find_highest None (checkpoints r) off of
             None \<Rightarrow>
               (case find_idle (readers r) off 0 of
                  Some i \<Rightarrow>
                    (let zr = fst (readers r ! i);
                         ((written, err), zr') = io_CopyN_Discard zr (off - gz_Offset zr);
                         r' = r \<lparr> readers := (readers r)[i := (zr', False)] \<rparr>
                     in case err of Some e \<Rightarrow> (Inl e, r') | None \<Rightarrow> (Inr i, r'))
                | None \<Rightarrow> (Inl (NoCheckpoint off), r))
           | Some highest \<Rightarrow>
               (case cont highest of
                  Inl err \<Rightarrow> (Inl (ContinueError err), r)
                | Inr zr \<Rightarrow>
                    (let discard = off - Out highest;
                         ((written, err), zr') = io_CopyN_Discard zr discard
                     in case err of
                          Some e \<Rightarrow> (Inl e, r)
                        | None \<Rightarrow> (Inr (length (readers r)),
                                    r \<lparr> readers := readers r @ [(zr', False)] \<rparr>)))))"

text \<open>
  \<open>ReadAt\<close> with a buffer of \<open>len\<close> bytes: the bytes read, the error, and the reader
  afterwards. The deferred function marks the acquired reader idle again.
\<close>

definition Reader_ReadAt ::
    "(Checkpoint \<Rightarrow> error + zReader) \<Rightarrow> Reader \<Rightarrow> nat \<Rightarrow> int \<Rightarrow> (byte list \<times> error option) \<times> Reader" where
  "Reader_ReadAt cont r len off =
     (case acquireReader cont r off of
        (Inl err, r') \<Rightarrow> (([], Some err), r')
      | (Inr i, r') \<Rightarrow>
          (let ((bs, err), zr') = io_ReadFull (fst (readers r' ! i)) len
           in ((bs, err), r' \<lparr> readers := (readers r')[i := (zr', True)] \<rparr>)))"

subsection \<open>Notions used to state the properties of gsip\<close>

text \<open>A reader after it has produced \<open>n\<close> more bytes.\<close>

definition advance :: "zReader \<Rightarrow> nat \<Rightarrow> zReader" where
  "advance zr n = zr \<lparr> zoffset := zoffset zr + int n, zdata := drop n (zdata zr) \<rparr>"

subsection \<open>An example reader\<close>

text \<open>
  A stream of eight bytes with checkpoints at the uncompressed offsets 2 and 5; the
  pool holds one idle reader that has read the stream to its end. Resuming from a
  checkpoint gives a reader at its \<open>Out\<close>.
\<close>

definition example_plain :: "byte list" where
  "example_plain = [10, 11, 12, 13, 14, 15, 16, 17]"

definition example_cont :: "Checkpoint \<Rightarrow> error + zReader" where
  "example_cont ck =
     Inr \<lparr> zoffset = Out ck, zdata = drop (nat (Out ck)) example_plain, zstatus = EOF \<rparr>"

definition example_checkpoint :: "int \<Rightarrow> int \<Rightarrow> Checkpoint" where
  "example_checkpoint i out =
     \<lparr> In = i, Out = out, B = 0, NB = 0, Hist = [], WrPos = 0, RdPos = 0, Full = False,
       Empty = False \<rparr>"

definition example_reader :: Reader where
  "example_reader =
     \<lparr> size = 30,
       checkpoints = [example_checkpoint 12 2, example_checkpoint 20 5],
       readers = [(\<lparr> zoffset = 8, zdata = [], zstatus = EOF \<rparr>, True)] \<rparr>"


section \<open>Properties of package tarfs\<close>

subsection \<open>What New builds\<close>

lemma New_scan_result:
  "New_scan fsys dc hdrs = (fsys', dc') \<Longrightarrow>
     files fsys' = files fsys @ map member_entry hdrs \<and> dirs fsys' = dirs fsys \<and>
     dom dc' = dom dc \<union> dir ` set (map member_entry hdrs)"
proof (induction hdrs arbitrary: fsys dc)
  case Nil
  then show ?case by simp
next
  case (Cons m hdrs)
  obtain hdr n where m: "m = (hdr, n)" by (cases m)
  from Cons.prems have "New_scan (fsys \<lparr> index := (index fsys)(normalize (Name hdr) \<mapsto> length (files fsys)),
                         files := files fsys @ [member_entry m] \<rparr>)
       (dc(path_Dir (normalize (Name hdr)) \<mapsto> (case dc (path_Dir (normalize (Name hdr))) of None \<Rightarrow> 0 | Some c \<Rightarrow> c) + 1)) hdrs = (fsys', dc')"
    by (simp add: m Let_def member_entry_def)
  from Cons.IH [OF this] show ?case
    by (auto simp: m member_entry_def)
qed

lemma filter_dir_empty: "d \<notin> dir ` set fs \<Longrightarrow> filter (\<lambda>f. dir f = d) fs = []"
  by (induction fs) auto

lemma New_fill_result:
  "New_fill ds fs d =
     (if d \<in> dir ` set fs then Some ((case ds d of None \<Rightarrow> [] | Some l \<Rightarrow> l) @ filter (\<lambda>f. dir f = d) fs)
      else ds d)"
  by (induction fs arbitrary: ds) (auto split: option.splits simp: filter_dir_empty)

lemma New_result:
  assumes "New hdrs err = Inr fsys"
  shows "files fsys = map member_entry hdrs"
    and "dirs fsys d = (if d \<in> dir ` set (files fsys)
            then Some (slices_SortFunc_Name (filter (\<lambda>f. dir f = d) (files fsys))) else None)"
proof -
  obtain fs0 dc where scan: "New_scan \<lparr> files = [], index = Map.empty, dirs = Map.empty \<rparr> Map.empty hdrs = (fs0, dc)"
    by (cases "New_scan \<lparr> files = [], index = Map.empty, dirs = Map.empty \<rparr> Map.empty hdrs")
  from New_scan_result [OF scan]
  have f0: "files fs0 = map member_entry hdrs" and d0: "dirs fs0 = Map.empty"
    and dc: "dom dc = dir ` set (map member_entry hdrs)" by simp_all
  from assms scan have fsys: "fsys = fs0 \<lparr> dirs := (\<lambda>d. map_option slices_SortFunc_Name
        (New_fill (New_alloc dc (dirs fs0)) (files fs0) d)) \<rparr>"
    by (simp add: New_def split: if_splits)
  show "files fsys = map member_entry hdrs" by (simp add: fsys f0)
  have "dc d \<noteq> None \<longleftrightarrow> d \<in> dir ` set (map member_entry hdrs)" for d
    using dc by (auto simp: dom_def)
  then show "dirs fsys d = (if d \<in> dir ` set (files fsys)
            then Some (slices_SortFunc_Name (filter (\<lambda>f. dir f = d) (files fsys))) else None)"
    by (simp add: fsys New_fill_result New_alloc_def f0 d0)
qed

subsection \<open>Reading a directory that has no members\<close>

text \<open>
  Claim C10. \<open>FS.ReadDir\<close> of a name that is the parent directory of no entry of the
  file system \<open>New\<close> built (a path the archive does not hold, or the path of a regular
  file) returns the empty list and no error; it never answers \<open>fs.ErrNotExist\<close>.
\<close>

theorem ReadDir_not_a_parent:
  assumes "New hdrs err = Inr fsys" and "name \<notin> dir ` set (files fsys)"
  shows "FS_ReadDir fsys name = Inr []"
  using assms by (simp add: FS_ReadDir_def New_result(2))


lemma New_EOF: "New hdrs EOF = Inr (projr (New hdrs EOF))"
  by (simp add: New_def split: prod.splits)

lemma symlink_archive_dirs:
  "map dir (map member_entry symlink_archive) =
     [''.'', ''usr'', ''usr/bin'', ''.'', ''weird'', ''weird'', ''weird/absolute'', ''weird'', ''weird/relative'']"
  by (simp add: symlink_archive_def member_def member_entry_def normalize_def path_Dir_def
      path_Split_def path_Clean_def strings_TrimPrefix_def strings_TrimSuffix_def)

theorem ReadDir_not_a_parent_witness:
  "New symlink_archive EOF = Inr (projr (New symlink_archive EOF)) \<and>
   ''usr/bin/binary'' \<notin> dir ` set (files (projr (New symlink_archive EOF))) \<and>
   ''nowhere'' \<notin> dir ` set (files (projr (New symlink_archive EOF))) \<and>
   FS_ReadDir (projr (New symlink_archive EOF)) ''usr/bin/binary'' = Inr [] \<and>
   FS_ReadDir (projr (New symlink_archive EOF)) ''nowhere'' = Inr []"
proof -
  have n: "New symlink_archive EOF = Inr (projr (New symlink_archive EOF))" by (rule New_EOF)
  have d: "dir ` set (files (projr (New symlink_archive EOF))) = set (map dir (map member_entry symlink_archive))"
    by (simp add: New_result(1) [OF n] image_image)
  have a: "''usr/bin/binary'' \<notin> dir ` set (files (projr (New symlink_archive EOF)))"
    unfolding d symlink_archive_dirs by simp
  have b: "''nowhere'' \<notin> dir ` set (files (projr (New symlink_archive EOF)))"
    unfolding d symlink_archive_dirs by simp
  show ?thesis
    using n a b ReadDir_not_a_parent [OF n a] ReadDir_not_a_parent [OF n b] by simp
qed



subsection \<open>The listing of a directory\<close>

lemma ReadDir_Inr: "FS_ReadDir fsys d = Inr (projr (FS_ReadDir fsys d))"
  by (simp add: FS_ReadDir_def split: option.splits)

text \<open>
  Claim C8, as amended. \<open>New\<close> records one entry for every member of the archive, and
  \<open>FS.ReadDir\<close> of a directory returns the entries whose parent is that directory,
  one for every such member, in ascending order of their names (the final path
  component). Members of one name are all listed: the names of a listing are distinct
  exactly when the members of that directory have distinct names.
\<close>

theorem ReadDir_sorted_members:
  assumes "New hdrs err = Inr fsys" and "FS_ReadDir fsys d = Inr es"
  shows "files fsys = map member_entry hdrs \<and>
         sorted (map Entry_Name es) \<and>
         mset es = mset (filter (\<lambda>e. dir e = d) (files fsys)) \<and>
         (distinct (map Entry_Name es) \<longleftrightarrow>
            distinct (map Entry_Name (filter (\<lambda>e. dir e = d) (files fsys))))"
proof -
  note n = assms(1) and r = assms(2)
  have es: "es = (if d \<in> dir ` set (files fsys) then slices_SortFunc_Name (filter (\<lambda>f. dir f = d) (files fsys)) else [])"
    using r by (simp add: FS_ReadDir_def New_result(2) [OF n] split: if_splits)
  have nomem: "d \<notin> dir ` set (files fsys) \<Longrightarrow> filter (\<lambda>f. dir f = d) (files fsys) = []"
    by (rule filter_dir_empty)
  have m: "mset es = mset (filter (\<lambda>e. dir e = d) (files fsys))"
    by (cases "d \<in> dir ` set (files fsys)") (simp_all add: es slices_SortFunc_Name_def nomem)
  have s: "sorted (map Entry_Name es)"
    by (simp add: es slices_SortFunc_Name_def)
  have "mset (map Entry_Name es) = mset (map Entry_Name (filter (\<lambda>e. dir e = d) (files fsys)))"
    using m by (metis mset_map)
  then have "distinct (map Entry_Name es) \<longleftrightarrow> distinct (map Entry_Name (filter (\<lambda>e. dir e = d) (files fsys)))"
    by (metis mset_eq_imp_distinct_iff)
  with m s New_result(1) [OF n] show ?thesis by simp
qed

lemma symlink_archive_weird:
  "map_sum id (map Entry_Name) (FS_ReadDir (projr (New symlink_archive EOF)) ''weird'') =
     Inr [''absolute'', ''linked'', ''relative'']"
proof -
  have n: "New symlink_archive EOF = Inr (projr (New symlink_archive EOF))" by (rule New_EOF)
  have f: "files (projr (New symlink_archive EOF)) = map member_entry symlink_archive"
    by (rule New_result(1) [OF n])
  have d: "dir ` set (files (projr (New symlink_archive EOF))) = set (map dir (map member_entry symlink_archive))"
    by (simp add: f image_image)
  have w: "''weird'' \<in> dir ` set (files (projr (New symlink_archive EOF)))"
    unfolding d symlink_archive_dirs by simp
  have s: "map Entry_Name (slices_SortFunc_Name
        (filter (\<lambda>e. dir e = ''weird'') (files (projr (New symlink_archive EOF)))))
      = [''absolute'', ''linked'', ''relative'']"
    unfolding f by code_simp
  show ?thesis
    by (simp add: FS_ReadDir_def New_result(2) [OF n] w s)
qed

theorem ReadDir_sorted_members_witness:
  "New symlink_archive EOF = Inr (projr (New symlink_archive EOF)) \<and>
   FS_ReadDir (projr (New symlink_archive EOF)) ''weird'' =
     Inr (projr (FS_ReadDir (projr (New symlink_archive EOF)) ''weird'')) \<and>
   map Entry_Name (projr (FS_ReadDir (projr (New symlink_archive EOF)) ''weird'')) =
     [''absolute'', ''linked'', ''relative''] \<and>
   sorted (map Entry_Name (projr (FS_ReadDir (projr (New symlink_archive EOF)) ''weird''))) \<and>
   mset (projr (FS_ReadDir (projr (New symlink_archive EOF)) ''weird'')) =
     mset (filter (\<lambda>e. dir e = ''weird'') (files (projr (New symlink_archive EOF))))"
proof -
  have n: "New symlink_archive EOF = Inr (projr (New symlink_archive EOF))" by (rule New_EOF)
  have r: "FS_ReadDir (projr (New symlink_archive EOF)) ''weird'' =
     Inr (projr (FS_ReadDir (projr (New symlink_archive EOF)) ''weird''))" by (rule ReadDir_Inr)
  have e: "map Entry_Name (projr (FS_ReadDir (projr (New symlink_archive EOF)) ''weird'')) =
     [''absolute'', ''linked'', ''relative'']"
    using symlink_archive_weird by (subst (asm) r) simp
  from ReadDir_sorted_members [OF n r] n r e show ?thesis by simp
qed

text \<open>
  Claim C8 as stated fails on an archive with two members named \<open>a\<close>: the listing of
  the root holds the name \<open>a\<close> twice.
\<close>

theorem ReadDir_collision_counterexample:
  "New collision_archive EOF = Inr (projr (New collision_archive EOF)) \<and>
   map_sum id (map Entry_Name) (FS_ReadDir (projr (New collision_archive EOF)) ''.'') =
     Inr [''a'', ''a'']"
proof -
  have n: "New collision_archive EOF = Inr (projr (New collision_archive EOF))" by (rule New_EOF)
  have f: "files (projr (New collision_archive EOF)) = map member_entry collision_archive"
    by (rule New_result(1) [OF n])
  have dd: "map dir (map member_entry collision_archive) = [''.'', ''.'']"
    by (simp add: collision_archive_def member_def member_entry_def normalize_def path_Dir_def
      path_Split_def path_Clean_def strings_TrimPrefix_def strings_TrimSuffix_def)
  have d: "dir ` set (files (projr (New collision_archive EOF))) = set (map dir (map member_entry collision_archive))"
    by (simp add: f image_image)
  have w: "''.'' \<in> dir ` set (files (projr (New collision_archive EOF)))"
    unfolding d dd by simp
  have s: "map Entry_Name (slices_SortFunc_Name
        (filter (\<lambda>e. dir e = ''.'') (files (projr (New collision_archive EOF)))))
      = [''a'', ''a'']"
    unfolding f by code_simp
  show ?thesis using n
    by (simp add: FS_ReadDir_def New_result(2) [OF n] w s)
qed

subsection \<open>Following links\<close>

lemma open_step:
  "FS_open fsys name hops =
     (if hops > maxHops then Inl (TooManySymlinks name)
      else case follow fsys name of
        Some name' \<Rightarrow> FS_open fsys name' (hops + 1)
      | None \<Rightarrow> opened fsys name)"
  by (subst FS_open.simps) (simp add: follow_def opened_def Let_def split: sum.splits option.splits)

lemma opened_not_TooMany: "opened fsys name \<noteq> Inl (TooManySymlinks x)"
  by (simp add: opened_def FS_Entry_def split: sum.splits option.splits)

lemma open_far:
  "chase fsys d name = Some far \<Longrightarrow> h + d = 256 \<Longrightarrow>
     FS_open fsys name (int h) = Inl (TooManySymlinks far)"
proof (induction d arbitrary: name h)
  case 0
  then show ?case by (subst open_step) (simp add: maxHops_def)
next
  case (Suc d)
  from Suc.prems obtain name' where f: "follow fsys name = Some name'" and c: "chase fsys d name' = Some far"
    by (auto split: option.splits)
  from Suc.prems have h: "Suc h + d = 256" by simp
  have "FS_open fsys name (int h) = FS_open fsys name' (int (Suc h))"
    using Suc.prems(2) by (subst open_step) (simp add: maxHops_def f add.commute)
  with Suc.IH [OF c h] show ?case by simp
qed

lemma open_near:
  "chase fsys d name = None \<Longrightarrow> h + d = 256 \<Longrightarrow>
     \<exists>k<d. \<exists>n. chase fsys k name = Some n \<and> follow fsys n = None \<and>
        FS_open fsys name (int h) = opened fsys n"
proof (induction d arbitrary: name h)
  case 0
  then show ?case by simp
next
  case (Suc d)
  show ?case
  proof (cases "follow fsys name")
    case None
    have "FS_open fsys name (int h) = opened fsys name"
      using Suc.prems(2) by (subst open_step) (simp add: maxHops_def None)
    with None have "chase fsys 0 name = Some name \<and> follow fsys name = None \<and>
        FS_open fsys name (int h) = opened fsys name" by simp
    then show ?thesis by blast
  next
    case (Some name')
    with Suc.prems have c: "chase fsys d name' = None" by simp
    from Suc.prems have h: "Suc h + d = 256" by simp
    have o: "FS_open fsys name (int h) = FS_open fsys name' (int (Suc h))"
      using Suc.prems(2) by (subst open_step) (simp add: maxHops_def Some add.commute)
    from Suc.IH [OF c h] obtain k n where "k < d" "chase fsys k name' = Some n"
      "follow fsys n = None" "FS_open fsys name' (int (Suc h)) = opened fsys n" by blast
    then have "Suc k < Suc d \<and> chase fsys (Suc k) name = Some n \<and> follow fsys n = None \<and>
        FS_open fsys name (int h) = opened fsys n"
      using Some o by simp
    then show ?thesis by blast
  qed
qed

lemma chase_add: "chase fsys (a + b) name = (case chase fsys a name of None \<Rightarrow> None | Some n \<Rightarrow> chase fsys b n)"
  by (induction a arbitrary: name) (auto split: option.splits)

lemma chase_cycle:
  assumes "chase fsys k name = Some name" and "0 < k"
  shows "chase fsys m name \<noteq> None"
proof (induction m rule: less_induct)
  case (less m)
  show ?case
  proof (cases "m < k")
    case True
    then have "k = m + (k - m)" by simp
    then have "chase fsys (m + (k - m)) name = Some name" using assms(1) by simp
    then show ?thesis by (auto simp: chase_add split: option.splits)
  next
    case False
    then have m: "m = k + (m - k)" by simp
    have "m - k < m" using False assms(2) by simp
    from less.IH [OF this] have "chase fsys (m - k) name \<noteq> None" .
    then have "chase fsys (k + (m - k)) name \<noteq> None"
      by (simp add: chase_add assms(1))
    with m show ?thesis by simp
  qed
qed

text \<open>
  Claim C7. \<open>open\<close> is a total function: every call returns. Started at hop count 0 it
  follows the chain of link indirections from \<open>name\<close>. When the chain ends within 255
  indirections, the result is what the name reached holds (a file, or \<open>ErrNotExist\<close>);
  when 256 indirections are possible, the call made with hop count 256 fails with the
  too-many-symlinks error for the name reached, and that is the only way the error
  arises. A chain that comes back to \<open>name\<close> is of the second kind.
\<close>

theorem open_hops:
  "(chase fsys 256 name = None \<longrightarrow>
      (\<exists>k\<le>255. \<exists>n. chase fsys k name = Some n \<and> follow fsys n = None \<and>
         FS_open fsys name 0 = opened fsys n)) \<and>
   (\<forall>k. 0 < k \<and> chase fsys k name = Some name \<longrightarrow>
      (\<exists>far. FS_open fsys name 0 = Inl (TooManySymlinks far))) \<and>
   (\<forall>x. FS_open fsys name 0 = Inl (TooManySymlinks x) \<longleftrightarrow> chase fsys 256 name = Some x)"
proof (intro conjI allI impI)
  assume "chase fsys 256 name = None"
  from open_near [OF this, of 0] obtain k n where "k < 256" "chase fsys k name = Some n"
    "follow fsys n = None" "FS_open fsys name 0 = opened fsys n" by auto
  then have "k \<le> 255 \<and> chase fsys k name = Some n \<and> follow fsys n = None \<and> FS_open fsys name 0 = opened fsys n"
    by simp
  then show "\<exists>k\<le>255. \<exists>n. chase fsys k name = Some n \<and> follow fsys n = None \<and> FS_open fsys name 0 = opened fsys n"
    by blast
next
  fix k assume "0 < k \<and> chase fsys k name = Some name"
  then have "chase fsys 256 name \<noteq> None" using chase_cycle by blast
  then obtain far where "chase fsys 256 name = Some far" by auto
  from open_far [OF this, of 0] show "\<exists>far. FS_open fsys name 0 = Inl (TooManySymlinks far)" by simp
next
  fix x
  show "FS_open fsys name 0 = Inl (TooManySymlinks x) \<longleftrightarrow> chase fsys 256 name = Some x"
  proof (cases "chase fsys 256 name")
    case None
    from open_near [OF this, of 0] obtain n where "FS_open fsys name 0 = opened fsys n" by auto
    then show ?thesis using None by (simp add: opened_not_TooMany)
  next
    case (Some far)
    from open_far [OF this, of 0] show ?thesis using Some by auto
  qed
qed

lemma loop_fs_follow: "follow loop_fs ''loop'' = Some ''loop''" "follow loop_fs ''file'' = None"
  by (simp_all add: follow_def loop_fs_def FS_Entry_def member_entry_def member_def
      TypeSymlink_def TypeLink_def TypeReg_def path_IsAbs_def path_Join_def path_Clean_def
      normalize_def path_Dir_def path_Split_def strings_TrimPrefix_def strings_TrimSuffix_def)

lemma chase_fixed: "follow fsys name = Some name \<Longrightarrow> chase fsys k name = Some name"
  by (induction k) simp_all

theorem open_hops_witness:
  "chase loop_fs 1 ''loop'' = Some ''loop'' \<and>
   chase loop_fs 256 ''loop'' = Some ''loop'' \<and>
   FS_open loop_fs ''loop'' 0 = Inl (TooManySymlinks ''loop'') \<and>
   chase loop_fs 256 ''file'' = None \<and>
   (\<exists>k\<le>255. \<exists>n. chase loop_fs k ''file'' = Some n \<and> follow loop_fs n = None \<and>
      FS_open loop_fs ''file'' 0 = opened loop_fs n)"
proof -
  have c: "chase loop_fs 256 ''loop'' = Some ''loop''" "chase loop_fs 1 ''loop'' = Some ''loop''"
    by (rule chase_fixed [OF loop_fs_follow(1)])+
  have "chase loop_fs (Suc 255) ''file'' = None"
    by (simp only: chase.simps loop_fs_follow option.case)
  then have f: "chase loop_fs 256 ''file'' = None" by simp
  from open_hops [of loop_fs "''loop''"] open_hops [of loop_fs "''file''"] c f
  show ?thesis by simp
qed

subsection \<open>Paging through a directory\<close>

lemma File_ReadDir_step:
  assumes d: "FS_ReadDir fsys (Filename (Entry f)) = Inr d"
    and c: "0 \<le> cursor f" "cursor f \<le> int (length d)"
  shows "File_ReadDir fsys f n =
     ((if n = 0 then [] else take (if n < 0 then length d else nat n) (drop (nat (cursor f)) d),
       if 0 < n \<and> cursor f = int (length d) then Some EOF else None),
      f \<lparr> cursor := (if n = 0 then cursor f else if n < 0 then int (length d)
                      else min (cursor f + n) (int (length d))) \<rparr>)"
proof -
  have f: "f \<lparr> cursor := cursor f \<rparr> = f" by simp
  consider "n = 0" | "n \<noteq> 0" "cursor f = int (length d)" | "n < 0" "cursor f < int (length d)"
    | "0 < n" "cursor f < int (length d)" "int (length d) - cursor f > n"
    | "0 < n" "cursor f < int (length d)" "int (length d) - cursor f \<le> n"
    using c by linarith
  then show ?thesis
  proof cases
    case 1
    then show ?thesis by (simp add: File_ReadDir_def f)
  next
    case 2
    then show ?thesis using c by (simp add: File_ReadDir_def d f min_def)
  next
    case 3
    then show ?thesis using c by (simp add: File_ReadDir_def d)
  next
    case 4
    then show ?thesis using c by (simp add: File_ReadDir_def d min_def)
  next
    case 5
    then have "length (drop (nat (cursor f)) d) \<le> nat n" using c by simp
    then have "take (nat n) (drop (nat (cursor f)) d) = drop (nat (cursor f)) d" by simp
    with 5 show ?thesis using c by (simp add: File_ReadDir_def d min_def)
  qed
qed

lemma take_drop_chain:
  "a \<le> b \<Longrightarrow> b \<le> c \<Longrightarrow> take (b - a) (drop a xs) @ take (c - b) (drop b xs) = take (c - a) (drop a xs)"
proof -
  assume ab: "a \<le> b" and bc: "b \<le> c"
  have "take (c - a) (drop a xs) = take ((b - a) + (c - b)) (drop a xs)" using ab bc by simp
  also have "\<dots> = take (b - a) (drop a xs) @ take (c - b) (drop (b - a) (drop a xs))"
    by (simp only: take_add)
  also have "drop (b - a) (drop a xs) = drop b xs" using ab by simp
  finally show ?thesis by simp
qed

lemma ReadDir_calls_concat:
  assumes "FS_ReadDir fsys (Filename (Entry f)) = Inr d"
    and "0 \<le> cursor f" "cursor f \<le> int (length d)"
    and "ReadDir_calls fsys f ns = (ess, f')"
  shows "Entry f' = Entry f \<and> cursor f \<le> cursor f' \<and> cursor f' \<le> int (length d) \<and>
     concat ess = take (nat (cursor f') - nat (cursor f)) (drop (nat (cursor f)) d) \<and>
     ((\<exists>n\<in>set ns. n < 0) \<or> int (length d) - cursor f \<le> sum_list (filter (\<lambda>n. 0 < n) ns)
        \<longrightarrow> cursor f' = int (length d))"
  using assms
proof (induction ns arbitrary: f ess)
  case Nil
  then show ?case by auto
next
  case (Cons n ns)
  define c1 where "c1 = (if n = 0 then cursor f else if n < 0 then int (length d)
                      else min (cursor f + n) (int (length d)))"
  define f1 where "f1 = f \<lparr> cursor := c1 \<rparr>"
  define es where "es = (if n = 0 then [] else take (if n < 0 then length d else nat n) (drop (nat (cursor f)) d))"
  have step: "File_ReadDir fsys f n = ((es, if 0 < n \<and> cursor f = int (length d) then Some EOF else None), f1)"
    unfolding es_def f1_def c1_def by (rule File_ReadDir_step [OF Cons.prems(1-3)])
  obtain ess1 where rest: "ReadDir_calls fsys f1 ns = (ess1, f')" and ess: "ess = es # ess1"
    using Cons.prems(4) by (auto simp: step split: prod.splits)
  have c1: "cursor f \<le> c1" "c1 \<le> int (length d)" "0 \<le> c1"
    using Cons.prems(2,3) by (auto simp: c1_def min_def)
  have e1: "Entry f1 = Entry f" "cursor f1 = c1" by (simp_all add: f1_def)
  have d1: "FS_ReadDir fsys (Filename (Entry f1)) = Inr d" using Cons.prems(1) by (simp add: e1)
  from Cons.IH [OF d1 _ _ rest] c1 e1
  have IH: "Entry f' = Entry f" "c1 \<le> cursor f'" "cursor f' \<le> int (length d)"
    "concat ess1 = take (nat (cursor f') - nat c1) (drop (nat c1) d)"
    "(\<exists>n\<in>set ns. n < 0) \<or> int (length d) - c1 \<le> sum_list (filter (\<lambda>n. 0 < n) ns) \<longrightarrow> cursor f' = int (length d)"
    by simp_all
  have es': "es = take (nat c1 - nat (cursor f)) (drop (nat (cursor f)) d)"
    using Cons.prems(2,3) by (auto simp: es_def c1_def min_def nat_diff_distrib nat_add_distrib)
  have "concat ess = es @ concat ess1" by (simp add: ess)
  also have "\<dots> = take (nat (cursor f') - nat (cursor f)) (drop (nat (cursor f)) d)"
    unfolding es' IH(4) using c1 IH(2) Cons.prems(2)
    by (intro take_drop_chain) auto
  finally have cc: "concat ess = take (nat (cursor f') - nat (cursor f)) (drop (nat (cursor f)) d)" .
  have fin: "cursor f' = int (length d)"
    if t: "(\<exists>n\<in>set (n # ns). n < 0) \<or> int (length d) - cursor f \<le> sum_list (filter (\<lambda>n. 0 < n) (n # ns))"
  proof (cases "c1 = int (length d)")
    case True
    with IH(2,3) show ?thesis by simp
  next
    case False
    then have n: "\<not> n < 0" and c1n: "c1 = (if n = 0 then cursor f else cursor f + n)"
      using Cons.prems(2,3) by (auto simp: c1_def min_def split: if_splits)
    from t n c1n have "(\<exists>n\<in>set ns. n < 0) \<or> int (length d) - c1 \<le> sum_list (filter (\<lambda>n. 0 < n) ns)"
      by (auto split: if_splits)
    with IH(5) show ?thesis by simp
  qed
  from IH(1) c1(1) IH(2,3) cc fin show ?case by auto
qed

text \<open>
  Claim C9, as amended. For a handle whose cursor lies within the listing \<open>d\<close> of its
  directory: \<open>ReadDir n\<close> with \<open>n > 0\<close> returns the next \<open>n\<close> entries or all that remain
  if they are fewer, with \<open>io.EOF\<close> when none remain; with \<open>n < 0\<close> it returns all that
  remain; with \<open>n = 0\<close> it returns no entry and leaves the cursor. The slices returned
  by successive calls on a fresh handle, put together, are the listing up to the
  cursor, and the whole listing once a negative argument was given or the positive
  arguments add up to its length.
\<close>

theorem File_ReadDir_pages:
  assumes "FS_ReadDir fsys (Filename (Entry f)) = Inr d"
    and "0 \<le> cursor f" and "cursor f \<le> int (length d)"
  shows "(0 < n \<longrightarrow> File_ReadDir fsys f n =
            ((take (nat n) (drop (nat (cursor f)) d),
              if cursor f = int (length d) then Some EOF else None),
             f \<lparr> cursor := min (cursor f + n) (int (length d)) \<rparr>)) \<and>
         (n < 0 \<longrightarrow> File_ReadDir fsys f n =
            ((drop (nat (cursor f)) d, None), f \<lparr> cursor := int (length d) \<rparr>)) \<and>
         (n = 0 \<longrightarrow> File_ReadDir fsys f n = (([], None), f)) \<and>
         (\<forall>ns ess f'. cursor f = 0 \<and> ReadDir_calls fsys f ns = (ess, f') \<longrightarrow>
            concat ess = take (nat (cursor f')) d \<and>
            ((\<exists>n\<in>set ns. n < 0) \<or> int (length d) \<le> sum_list (filter (\<lambda>n. 0 < n) ns)
               \<longrightarrow> concat ess = d))"
proof -
  have f: "f \<lparr> cursor := cursor f \<rparr> = f" by simp
  note step = File_ReadDir_step [OF assms, of n]
  have 1: "0 < n \<longrightarrow> File_ReadDir fsys f n =
            ((take (nat n) (drop (nat (cursor f)) d),
              if cursor f = int (length d) then Some EOF else None),
             f \<lparr> cursor := min (cursor f + n) (int (length d)) \<rparr>)"
    using step by simp
  have 2: "n < 0 \<longrightarrow> File_ReadDir fsys f n =
            ((drop (nat (cursor f)) d, None), f \<lparr> cursor := int (length d) \<rparr>)"
    using step by simp
  have 3: "n = 0 \<longrightarrow> File_ReadDir fsys f n = (([], None), f)"
    by (simp add: File_ReadDir_def)
  have 4: "concat ess = take (nat (cursor f')) d \<and>
            ((\<exists>n\<in>set ns. n < 0) \<or> int (length d) \<le> sum_list (filter (\<lambda>n. 0 < n) ns)
               \<longrightarrow> concat ess = d)"
    if "cursor f = 0 \<and> ReadDir_calls fsys f ns = (ess, f')" for ns ess f'
    using ReadDir_calls_concat [OF assms, of ns ess f'] that by auto
  from 1 2 3 4 show ?thesis by blast
qed

lemma loop_fs_root:
  "FS_ReadDir loop_fs (Filename (Entry (projr (FS_Open loop_fs ''.'')))) =
     Inr [member_entry (member ''file'' TypeReg [] 1024),
          member_entry (member ''loop'' TypeSymlink ''loop'' 512)]"
  "cursor (projr (FS_Open loop_fs ''.'')) = 0"
  by (simp_all add: FS_Open_def FS_ReadDir_def loop_fs_def)

theorem File_ReadDir_pages_witness:
  "FS_ReadDir loop_fs (Filename (Entry (projr (FS_Open loop_fs ''.'')))) =
     Inr [member_entry (member ''file'' TypeReg [] 1024),
          member_entry (member ''loop'' TypeSymlink ''loop'' 512)] \<and>
   cursor (projr (FS_Open loop_fs ''.'')) = 0 \<and>
   File_ReadDir loop_fs (projr (FS_Open loop_fs ''.'')) 1 =
     (([member_entry (member ''file'' TypeReg [] 1024)], None),
      (projr (FS_Open loop_fs ''.'')) \<lparr> cursor := 1 \<rparr>) \<and>
   File_ReadDir loop_fs (projr (FS_Open loop_fs ''.'')) (- 1) =
     (([member_entry (member ''file'' TypeReg [] 1024),
        member_entry (member ''loop'' TypeSymlink ''loop'' 512)], None),
      (projr (FS_Open loop_fs ''.'')) \<lparr> cursor := 2 \<rparr>) \<and>
   concat (fst (ReadDir_calls loop_fs (projr (FS_Open loop_fs ''.'')) [1, 0, 1, 1])) =
     [member_entry (member ''file'' TypeReg [] 1024),
      member_entry (member ''loop'' TypeSymlink ''loop'' 512)]"
proof -
  let ?f = "projr (FS_Open loop_fs ''.'')"
  let ?d = "[member_entry (member ''file'' TypeReg [] 1024),
          member_entry (member ''loop'' TypeSymlink ''loop'' 512)]"
  have h: "FS_ReadDir loop_fs (Filename (Entry ?f)) = Inr ?d" "0 \<le> cursor ?f"
    "cursor ?f \<le> int (length ?d)"
    by (simp_all add: loop_fs_root)
  have c: "ReadDir_calls loop_fs ?f [1, 0, 1, 1] =
      (fst (ReadDir_calls loop_fs ?f [1, 0, 1, 1]), snd (ReadDir_calls loop_fs ?f [1, 0, 1, 1]))"
    by simp
  note pages = File_ReadDir_pages [OF h, of 1]
  from pages [THEN conjunct1]
  have p1: "File_ReadDir loop_fs ?f 1 =
     (([member_entry (member ''file'' TypeReg [] 1024)], None), ?f \<lparr> cursor := 1 \<rparr>)"
    by (simp add: loop_fs_root(2))
  note calls = pages [THEN conjunct2, THEN conjunct2, THEN conjunct2]
  from File_ReadDir_pages [OF h, of "- 1"]
  have p2: "File_ReadDir loop_fs ?f (- 1) = ((?d, None), ?f \<lparr> cursor := 2 \<rparr>)"
    by (simp add: loop_fs_root(2))
  from calls c have "(\<exists>n\<in>set [1, 0, 1, 1 :: int]. n < 0) \<or>
        int (length ?d) \<le> sum_list (filter (\<lambda>n. 0 < n) [1, 0, 1, 1])
      \<longrightarrow> concat (fst (ReadDir_calls loop_fs ?f [1, 0, 1, 1])) = ?d"
    using loop_fs_root(2) by blast
  then have p3: "concat (fst (ReadDir_calls loop_fs ?f [1, 0, 1, 1])) = ?d" by simp
  from h(1) loop_fs_root(2) p1 p2 p3 show ?thesis by simp
qed

text \<open>
  Claim C9 as stated fails for \<open>n = 0\<close>: on a fresh handle of a directory with two
  entries, \<open>ReadDir 0\<close> returns no entry, not the two that remain.
\<close>

theorem File_ReadDir_zero_counterexample:
  "FS_ReadDir loop_fs (Filename (Entry (projr (FS_Open loop_fs ''.'')))) =
     Inr [member_entry (member ''file'' TypeReg [] 1024),
          member_entry (member ''loop'' TypeSymlink ''loop'' 512)] \<and>
   cursor (projr (FS_Open loop_fs ''.'')) = 0 \<and>
   File_ReadDir loop_fs (projr (FS_Open loop_fs ''.'')) 0 =
     (([], None), projr (FS_Open loop_fs ''.''))"
  by (simp add: loop_fs_root File_ReadDir_def)

section \<open>Properties of package gsip\<close>

subsection \<open>What ReadFull and CopyN return\<close>

lemma advance_0 [simp]: "advance zr 0 = zr"
  by (simp add: advance_def)

lemma advance_advance: "advance (advance zr a) b = advance zr (a + b)"
  by (simp add: advance_def add.commute)

lemma advance_sel [simp]:
  "zoffset (advance zr n) = zoffset zr + int n"
  "zdata (advance zr n) = drop n (zdata zr)"
  "zstatus (advance zr n) = zstatus zr"
  by (simp_all add: advance_def)

lemma take_min_length: "take (min k (length xs)) xs = take k xs"
  by (simp add: min_def)

lemma zRead_eq:
  "zRead zr k =
     (if zdata zr = [] then (([], Some (zstatus zr)), zr)
      else ((take k (zdata zr), None), advance zr (min k (length (zdata zr)))))"
  by (simp add: zRead_def Let_def advance_def min_def)

lemma Discard_ReadFrom_eq:
  "0 \<le> N \<Longrightarrow> Discard_ReadFrom zr N w =
     ((w + int (min (nat N) (length (zdata zr))),
       if int (length (zdata zr)) < N \<and> zstatus zr \<noteq> EOF then Some (zstatus zr) else None),
      advance zr (min (nat N) (length (zdata zr))))"
proof (induction zr N w rule: Discard_ReadFrom.induct)
  case (1 zr N written)
  show ?case
  proof (cases "N \<le> 0")
    case True
    with 1(2) show ?thesis by (subst Discard_ReadFrom.simps) simp
  next
    case pos: False
    show ?thesis
    proof (cases "zdata zr = []")
      case True
      with pos show ?thesis by (subst Discard_ReadFrom.simps) (simp add: zRead_eq)
    next
      case False
      define n where "n = min (nat (min 8192 N)) (length (zdata zr))"
      have n: "0 < n" "int n \<le> N" "n \<le> length (zdata zr)" using pos False by (auto simp: n_def)
      have rd: "zRead zr (nat (min 8192 N)) = ((take n (zdata zr), None), advance zr n)"
        using False by (simp add: zRead_eq n_def take_min_length)
      have len: "length (take n (zdata zr)) = n" using n by simp
      have nn: "n + nat (N - int n) = nat N" using n by linarith
      have "Discard_ReadFrom zr N written =
          Discard_ReadFrom (advance zr n) (N - int n) (written + int n)"
        using pos n(3) by (subst Discard_ReadFrom.simps) (simp add: rd min_absorb2)
      also have "\<dots> = ((written + int n + int (min (nat (N - int n)) (length (zdata (advance zr n)))),
          if int (length (zdata (advance zr n))) < N - int n \<and> zstatus (advance zr n) \<noteq> EOF
          then Some (zstatus (advance zr n)) else None),
          advance (advance zr n) (min (nat (N - int n)) (length (zdata (advance zr n)))))"
        using 1(1) [OF pos rd [symmetric] refl refl] n len by simp
      also have "\<dots> = ((written + int (min (nat N) (length (zdata zr))),
          if int (length (zdata zr)) < N \<and> zstatus zr \<noteq> EOF then Some (zstatus zr) else None),
          advance zr (min (nat N) (length (zdata zr))))"
        using n nn by (auto simp: advance_advance min_def)
      finally show ?thesis .
    qed
  qed
qed

lemma io_CopyN_Discard_eq:
  assumes "0 \<le> n"
  shows "io_CopyN_Discard zr n =
     (if n \<le> int (length (zdata zr)) then ((n, None), advance zr (nat n))
      else ((int (length (zdata zr)), Some (zstatus zr)), advance zr (length (zdata zr))))"
  using assms by (auto simp: io_CopyN_Discard_def Discard_ReadFrom_eq min_def)

lemma ReadAtLeast_loop_eq:
  "ReadAtLeast_loop zr m got =
     (if m \<le> length got then ((got, None), zr)
      else ((got @ take (m - length got) (zdata zr),
             if length got + length (zdata zr) < m then Some (zstatus zr) else None),
            advance zr (min (m - length got) (length (zdata zr)))))"
proof (induction zr m got rule: ReadAtLeast_loop.induct)
  case (1 zr m got)
  show ?case
  proof (cases "length got < m")
    case False
    then show ?thesis by (subst ReadAtLeast_loop.simps) simp
  next
    case lt: True
    show ?thesis
    proof (cases "zdata zr = []")
      case True
      with lt show ?thesis by (subst ReadAtLeast_loop.simps) (simp add: zRead_eq)
    next
      case False
      define n where "n = min (m - length got) (length (zdata zr))"
      have n: "0 < n" "n \<le> m - length got" "n \<le> length (zdata zr)" using lt False by (auto simp: n_def)
      have rd: "zRead zr (m - length got) = ((take (m - length got) (zdata zr), None), advance zr n)"
        using False by (simp add: zRead_eq n_def)
      have len: "length (take (m - length got) (zdata zr)) = n" by (simp add: n_def)
      have "ReadAtLeast_loop zr m got =
          ReadAtLeast_loop (advance zr n) m (got @ take (m - length got) (zdata zr))"
        using lt by (subst ReadAtLeast_loop.simps) (simp add: rd)
      also note 1 [OF lt rd [symmetric] refl refl]
      finally show ?thesis using n lt len
        by (auto simp: advance_advance min_def n_def)
    qed
  qed
qed

lemma io_ReadFull_eq:
  "io_ReadFull zr len =
     (if len \<le> length (zdata zr) then ((take len (zdata zr), None), advance zr len)
      else ((zdata zr,
             Some (if zdata zr \<noteq> [] \<and> zstatus zr = EOF then ErrUnexpectedEOF else zstatus zr)),
            advance zr (length (zdata zr))))"
  by (auto simp: io_ReadFull_def ReadAtLeast_loop_eq min_def)











subsection \<open>Acquiring a reader\<close>







lemma example_acquire:
  "acquireReader example_cont example_reader 6 =
     (Inr 1, example_reader \<lparr> readers := readers example_reader @
        [(\<lparr> zoffset = 6, zdata = [16, 17], zstatus = EOF \<rparr>, False)] \<rparr>)"
  by (simp add: acquireReader_def example_reader_def example_cont_def example_checkpoint_def
      example_plain_def gz_Offset_def io_CopyN_Discard_eq advance_def)



subsection \<open>Reading at an offset\<close>

text \<open>
  Claim C6, as amended. \<open>ReadAt\<close> returns the error of \<open>acquireReader\<close> when that fails.
  Otherwise, with the acquired reader at \<open>off\<close>: if the stream holds \<open>|buf|\<close> more bytes,
  all of them are read and the error is nil; if it ends after some but not all of them,
  the bytes there are returned with \<open>ErrUnexpectedEOF\<close>; if it has no byte left, nothing
  is read and the error is the reader's own, \<open>io.EOF\<close> at the regular end of the stream.
  The reader is idle again afterwards.
\<close>

theorem ReadAt_full_or_eof:
  "(\<forall>e r1. acquireReader cont r off = (Inl e, r1) \<longrightarrow>
      Reader_ReadAt cont r len off = (([], Some e), r1)) \<and>
   (\<forall>i r1 zr. acquireReader cont r off = (Inr i, r1) \<and> zr = fst (readers r1 ! i) \<longrightarrow>
      Reader_ReadAt cont r len off =
        (if len \<le> length (zdata zr)
         then ((take len (zdata zr), None),
               r1 \<lparr> readers := (readers r1)[i := (advance zr len, True)] \<rparr>)
         else ((zdata zr,
                Some (if zdata zr \<noteq> [] \<and> zstatus zr = EOF then ErrUnexpectedEOF else zstatus zr)),
               r1 \<lparr> readers := (readers r1)[i := (advance zr (length (zdata zr)), True)] \<rparr>)))"
  by (simp add: Reader_ReadAt_def io_ReadFull_eq)

theorem ReadAt_full_or_eof_witness:
  "acquireReader example_cont example_reader 6 =
     (Inr 1, example_reader \<lparr> readers := readers example_reader @
        [(\<lparr> zoffset = 6, zdata = [16, 17], zstatus = EOF \<rparr>, False)] \<rparr>) \<and>
   Reader_ReadAt example_cont example_reader 2 6 =
     (([16, 17], None), example_reader \<lparr> readers := readers example_reader @
        [(\<lparr> zoffset = 8, zdata = [], zstatus = EOF \<rparr>, True)] \<rparr>) \<and>
   Reader_ReadAt example_cont example_reader 3 6 =
     (([16, 17], Some ErrUnexpectedEOF), example_reader \<lparr> readers := readers example_reader @
        [(\<lparr> zoffset = 8, zdata = [], zstatus = EOF \<rparr>, True)] \<rparr>)"
proof -
  note a = example_acquire
  have r: "readers example_reader = [(\<lparr> zoffset = 8, zdata = [], zstatus = EOF \<rparr>, True)]"
    by (simp add: example_reader_def)
  from ReadAt_full_or_eof [of example_cont example_reader 6 2]
    ReadAt_full_or_eof [of example_cont example_reader 6 3] a
  show ?thesis by (simp add: r advance_def)
qed

text \<open>
  Claim C6 as stated fails at the end of the stream: a read of two bytes at offset 8 of
  the eight-byte stream fills nothing and returns \<open>io.EOF\<close>, not \<open>ErrUnexpectedEOF\<close>.
\<close>

theorem ReadAt_at_end_counterexample:
  "Reader_ReadAt example_cont example_reader 2 8 = (([], Some EOF), example_reader)"
  by (simp add: Reader_ReadAt_def acquireReader_def example_reader_def gz_Offset_def
      io_ReadFull_eq advance_def)

end
